theory Spec2Isabelle
  imports Complex_Main "HOL-Library.Product_Lexorder"
begin

section \<open>Data model of \<open>parallel_query_processor.py\<close>\<close>

text \<open>
  A naive \<open>datetime\<close> is its seven fields, in the order Python compares them:
  year, month, day, hour, minute, second, microsecond. The order on the type is the
  lexicographic one of the tuple, which is the order of \<open>datetime.__lt__\<close> on naive
  values.
\<close>

type_synonym datetime = "nat \<times> nat \<times> nat \<times> nat \<times> nat \<times> nat \<times> nat"

text \<open>An exception object: its class name and the text \<open>str(e)\<close> gives.\<close>

datatype py_exception = PyException (exc_class: string) (exc_str: string)

record ActivePeriod =
  sensor_id :: int
  start_time :: datetime
  end_time :: datetime
  period_id :: "int option"

record QueryResult =
  period :: "ActivePeriod option"
  row_count :: int
  duration_ms :: real
  success :: bool
  error :: "string option"

text \<open>The fields of \<open>ParallelQueryProcessor.__init__\<close> that the dispatcher reads.\<close>

record processor =
  max_connections :: int
  batch_size :: int

section \<open>Python built-ins used by the source\<close>

definition py_min :: "'a::linorder list \<Rightarrow> py_exception + 'a" where
  "py_min xs = (case xs of
      [] \<Rightarrow> Inl (PyException ''ValueError'' ''min() arg is an empty sequence'')
    | y # ys \<Rightarrow> Inr (fold min ys y))"

definition py_max :: "'a::linorder list \<Rightarrow> py_exception + 'a" where
  "py_max xs = (case xs of
      [] \<Rightarrow> Inl (PyException ''ValueError'' ''max() arg is an empty sequence'')
    | y # ys \<Rightarrow> Inr (fold max ys y))"

definition py_truediv :: "real \<Rightarrow> int \<Rightarrow> py_exception + real" where
  "py_truediv a b =
     (if b = 0 then Inl (PyException ''ZeroDivisionError'' ''division by zero'')
      else Inr (a / of_int b))"

text \<open>
  \<open>range(start, stop, step)\<close>: a zero step raises, a positive step counts up while below
  \<open>stop\<close>, a negative one counts down while above it.
\<close>

definition py_range :: "int \<Rightarrow> int \<Rightarrow> int \<Rightarrow> py_exception + int list" where
  "py_range start stop step =
     (if step = 0 then Inl (PyException ''ValueError'' ''range() arg 3 must not be zero'')
      else if 0 < step then
        Inr (map (\<lambda>k. start + int k * step) [0 ..< nat ((stop - start + step - 1) div step)])
      else
        Inr (map (\<lambda>k. start + int k * step) [0 ..< nat ((start - stop - step - 1) div (- step))]))"

text \<open>\<open>xs[i:j]\<close>: negative indices count from the end, both are clamped to the list.\<close>

definition py_slice :: "'a list \<Rightarrow> int \<Rightarrow> int \<Rightarrow> 'a list" where
  "py_slice xs i j =
     (let n = int (length xs);
          i' = (if i < 0 then max 0 (i + n) else min i n);
          j' = (if j < 0 then max 0 (j + n) else min j n)
      in take (nat (j' - i')) (drop (nat i') xs))"

section \<open>The backend the queries run against\<close>

text \<open>
  The two tables of the \<open>bench\<close> schema the queries read. The measurement value is
  payload only.
\<close>

record sensor_row =
  s_sensor_id :: int
  measurement_time :: datetime
  measurement_value :: int

record period_row =
  p_id :: int
  p_sensor_id :: int
  p_start_time :: datetime
  p_end_time :: datetime
  p_status :: string

text \<open>
  What \<open>conn.fetch\<close> is called with: the per-period query and its three bound
  parameters, or the batch query, whose text is built from the periods, and its two
  bound parameters.
\<close>

datatype request =
    SingleQuery int datetime datetime
  | BatchQuery "ActivePeriod list" datetime datetime

text \<open>
  The environment of a task: the tables, the failures of \<open>pool.acquire()\<close> and of
  \<open>conn.fetch\<close> (a missing pool, a backend error, a timeout), and the seconds the event
  loop's clock advances between the two readings a task takes.
\<close>

record backend =
  sensor_data :: "sensor_row list"
  active_periods :: "period_row list"
  acquire_fault :: "request \<Rightarrow> py_exception option"
  fetch_fault :: "request \<Rightarrow> py_exception option"
  elapsed :: "request \<Rightarrow> real"

datatype effect = Acquired | Fetched request

text \<open>The \<open>JOIN ... ON\<close> condition shared by both queries.\<close>

definition join_on :: "sensor_row \<Rightarrow> period_row \<Rightarrow> bool" where
  "join_on s p \<longleftrightarrow>
     s_sensor_id s = p_sensor_id p \<and>
     p_start_time p \<le> measurement_time s \<and>
     measurement_time s < p_end_time p"

text \<open>One clause of the disjunction of the batch query, for one period.\<close>

definition or_condition :: "ActivePeriod \<Rightarrow> sensor_row \<Rightarrow> bool" where
  "or_condition u s \<longleftrightarrow>
     s_sensor_id s = sensor_id u \<and>
     start_time u \<le> measurement_time s \<and>
     measurement_time s < end_time u"

fun where_clause :: "request \<Rightarrow> sensor_row \<Rightarrow> period_row \<Rightarrow> bool" where
  "where_clause (SingleQuery sid lo hi) s p \<longleftrightarrow>
     s_sensor_id s = sid \<and> lo \<le> measurement_time s \<and> measurement_time s < hi \<and>
     p_status p = ''DONE''"
| "where_clause (BatchQuery us lo hi) s p \<longleftrightarrow>
     list_ex (\<lambda>u. or_condition u s) us \<and>
     lo \<le> measurement_time s \<and> measurement_time s < hi \<and>
     p_status p = ''DONE''"

definition select_rows :: "backend \<Rightarrow> request \<Rightarrow> (sensor_row \<times> period_row) list" where
  "select_rows b req =
     filter (\<lambda>(s, p). join_on s p \<and> where_clause req s p)
       (List.product (sensor_data b) (active_periods b))"

definition conn_fetch :: "backend \<Rightarrow> request \<Rightarrow> py_exception + (sensor_row \<times> period_row) list" where
  "conn_fetch b req =
     (case fetch_fault b req of Some e \<Rightarrow> Inl e | None \<Rightarrow> Inr (select_rows b req))"

section \<open>The two query operations\<close>

text \<open>
  \<open>run_query\<close> is the \<open>try\<close> block both operations share: acquire a connection, fetch,
  and turn any exception into a failed result. It returns the result together with the
  effects on the pool, in order.
\<close>

definition run_query :: "backend \<Rightarrow> ActivePeriod option \<Rightarrow> request \<Rightarrow> QueryResult \<times> effect list" where
  "run_query b per req =
     (case acquire_fault b req of
        Some e \<Rightarrow>
          (\<lparr>period = per, row_count = 0, duration_ms = elapsed b req * 1000,
            success = False, error = Some (exc_str e)\<rparr>, [])
      | None \<Rightarrow>
          (case conn_fetch b req of
             Inl e \<Rightarrow>
               (\<lparr>period = per, row_count = 0, duration_ms = elapsed b req * 1000,
                 success = False, error = Some (exc_str e)\<rparr>, [Acquired, Fetched req])
           | Inr rows \<Rightarrow>
               (\<lparr>period = per, row_count = int (length rows),
                 duration_ms = elapsed b req * 1000,
                 success = True, error = None\<rparr>, [Acquired, Fetched req])))"

definition query_single_period :: "backend \<Rightarrow> ActivePeriod \<Rightarrow> QueryResult \<times> effect list" where
  "query_single_period b p =
     run_query b (Some p) (SingleQuery (sensor_id p) (start_time p) (end_time p))"

definition query_batch_periods ::
  "backend \<Rightarrow> ActivePeriod list \<Rightarrow> (py_exception + QueryResult) \<times> effect list" where
  "query_batch_periods b periods =
     (if periods = [] then
        (Inr \<lparr>period = None, row_count = 0, duration_ms = 0, success = True, error = None\<rparr>, [])
      else
        (case py_min (map start_time periods) of
           Inl e \<Rightarrow> (Inl e, [])
         | Inr min_time \<Rightarrow>
             (case py_max (map end_time periods) of
                Inl e \<Rightarrow> (Inl e, [])
              | Inr max_time \<Rightarrow>
                  (let (r, fx) = run_query b None (BatchQuery periods min_time max_time)
                   in (Inr r, fx)))))"

section \<open>The aggregator\<close>

record summary =
  total_queries :: nat
  successful_count :: nat
  failed_count :: nat
  total_rows :: int
  total_duration :: real
  avg_duration :: real
  min_duration :: "real option"
  max_duration :: "real option"

definition print_summary :: "QueryResult list \<Rightarrow> py_exception + summary" where
  "print_summary results =
     (let successful = filter success results;
          failed = filter (\<lambda>r. \<not> success r) results;
          total_rows = sum_list (map row_count successful);
          total_duration = sum_list (map duration_ms successful)
      in case (if successful \<noteq> [] then py_truediv total_duration (int (length successful))
               else Inr 0) of
           Inl e \<Rightarrow> Inl e
         | Inr avg \<Rightarrow>
             (if successful \<noteq> [] then
                (case py_min (map duration_ms successful) of
                   Inl e \<Rightarrow> Inl e
                 | Inr mn \<Rightarrow>
                     (case py_max (map duration_ms successful) of
                        Inl e \<Rightarrow> Inl e
                      | Inr mx \<Rightarrow>
                          Inr \<lparr>total_queries = length results,
                               successful_count = length successful,
                               failed_count = length failed,
                               total_rows = total_rows, total_duration = total_duration,
                               avg_duration = avg,
                               min_duration = Some mn, max_duration = Some mx\<rparr>))
              else
                Inr \<lparr>total_queries = length results,
                     successful_count = length successful,
                     failed_count = length failed,
                     total_rows = total_rows, total_duration = total_duration,
                     avg_duration = avg,
                     min_duration = None, max_duration = None\<rparr>))"

section \<open>The dispatcher\<close>

text \<open>
  What the call returns to its caller: a value, an exception that propagates, or nothing
  yet, the awaited \<open>gather\<close> being still incomplete.
\<close>

datatype 'a run = Returns 'a | Raises py_exception | Awaiting

text \<open>
  A task wrapped by \<open>bounded_task\<close> waits at \<open>async with semaphore\<close>, then holds a slot
  while it awaits the query, then has released the slot and delivered what the query
  returned or raised.
\<close>

datatype 'r slot = Pending | Running | Done 'r

record 'r loop_state =
  sem_value :: nat
  slots :: "'r slot list"

text \<open>
  The event loop resumes task \<open>i\<close>. A pending task enters the semaphore if its value is
  positive and keeps waiting otherwise; a running task completes with its outcome and
  releases; a finished task stays as it is.
\<close>

definition advance :: "'r list \<Rightarrow> nat \<Rightarrow> 'r loop_state \<Rightarrow> 'r loop_state" where
  "advance outs i s =
     (if i < length (slots s) then
        (case slots s ! i of
           Pending \<Rightarrow>
             (if 0 < sem_value s
              then \<lparr>sem_value = sem_value s - 1, slots = (slots s)[i := Running]\<rparr>
              else s)
         | Running \<Rightarrow> \<lparr>sem_value = sem_value s + 1, slots = (slots s)[i := Done (outs ! i)]\<rparr>
         | Done r \<Rightarrow> s)
      else s)"

definition event_loop :: "'r list \<Rightarrow> nat list \<Rightarrow> 'r loop_state \<Rightarrow> 'r loop_state" where
  "event_loop outs sched s = fold (advance outs) sched s"

text \<open>\<open>gather\<close> delivers its list once every child is done, in the order of the children.\<close>

fun gathered :: "'r slot list \<Rightarrow> 'r list option" where
  "gathered [] = Some []"
| "gathered (Done r # ss) = (case gathered ss of None \<Rightarrow> None | Some rs \<Rightarrow> Some (r # rs))"
| "gathered (_ # ss) = None"

fun is_running :: "'r slot \<Rightarrow> bool" where
  "is_running Running = True"
| "is_running _ = False"

definition in_flight :: "'r loop_state \<Rightarrow> nat" where
  "in_flight s = length (filter is_running (slots s))"

definition loop_start :: "int \<Rightarrow> 'r list \<Rightarrow> 'r loop_state" where
  "loop_start m outs = \<lparr>sem_value = nat m, slots = replicate (length outs) Pending\<rparr>"

text \<open>
  Lines 340 to 350: the semaphore, whose constructor refuses a negative value, and
  \<open>gather(..., return_exceptions=True)\<close> over the wrapped tasks. \<open>outs\<close> holds what each
  task returns or raises when awaited; \<open>sched\<close> is the order in which the event loop
  resumes the tasks.
\<close>

definition bounded_gather :: "int \<Rightarrow> 'r list \<Rightarrow> nat list \<Rightarrow> 'r list run" where
  "bounded_gather m outs sched =
     (if m < 0 then Raises (PyException ''ValueError'' ''Semaphore initial value must be >= 0'')
      else (case gathered (slots (event_loop outs sched (loop_start m outs))) of
              None \<Rightarrow> Awaiting
            | Some results \<Rightarrow> Returns results))"

definition exception_result :: "py_exception \<Rightarrow> QueryResult" where
  "exception_result e =
     \<lparr>period = None, row_count = 0, duration_ms = 0, success = False,
      error = Some (exc_str e)\<rparr>"

primrec handle_exceptions :: "(py_exception + QueryResult) list \<Rightarrow> QueryResult list" where
  "handle_exceptions [] = []"
| "handle_exceptions (result # results) =
     (case result of Inl e \<Rightarrow> exception_result e | Inr r \<Rightarrow> r) # handle_exceptions results"

text \<open>Lines 340 to 369, for tasks already built.\<close>

definition dispatch_tasks ::
  "int \<Rightarrow> (py_exception + QueryResult) list \<Rightarrow> nat list \<Rightarrow> QueryResult list run" where
  "dispatch_tasks m tasks sched =
     (case bounded_gather m tasks sched of
        Returns results \<Rightarrow> Returns (handle_exceptions results)
      | Raises e \<Rightarrow> Raises e
      | Awaiting \<Rightarrow> Awaiting)"

text \<open>Lines 312 to 338: one task per batch, or one per period.\<close>

definition make_batches :: "processor \<Rightarrow> ActivePeriod list \<Rightarrow> py_exception + ActivePeriod list list" where
  "make_batches proc periods =
     (case py_range 0 (int (length periods)) (batch_size proc) of
        Inl e \<Rightarrow> Inl e
      | Inr starts \<Rightarrow> Inr (map (\<lambda>i. py_slice periods i (i + batch_size proc)) starts))"

definition make_tasks ::
  "processor \<Rightarrow> backend \<Rightarrow> ActivePeriod list \<Rightarrow> bool \<Rightarrow>
   py_exception + (py_exception + QueryResult) list" where
  "make_tasks proc b periods use_batching =
     (if use_batching then
        (case make_batches proc periods of
           Inl e \<Rightarrow> Inl e
         | Inr batches \<Rightarrow> Inr (map (\<lambda>batch. fst (query_batch_periods b batch)) batches))
      else Inr (map (\<lambda>p. Inr (fst (query_single_period b p))) periods))"

definition process_all_periods_parallel ::
  "processor \<Rightarrow> backend \<Rightarrow> nat list \<Rightarrow> ActivePeriod list \<Rightarrow> bool \<Rightarrow> QueryResult list run" where
  "process_all_periods_parallel proc b sched periods use_batching =
     (case make_tasks proc b periods use_batching of
        Inl e \<Rightarrow> Raises e
      | Inr tasks \<Rightarrow> dispatch_tasks (max_connections proc) tasks sched)"

section \<open>The text of the queries\<close>

text \<open>\<open>str\<close> of an integer: its decimal digits, with a minus sign when negative.\<close>

function str_nat :: "nat \<Rightarrow> string" where
  "str_nat n =
     (if n < 10 then [''0123456789'' ! n]
      else str_nat (n div 10) @ [''0123456789'' ! (n mod 10)])"
  by pat_completeness auto
termination
  by (relation "measure id") auto

definition str_int :: "int \<Rightarrow> string" where
  "str_int i = (if i < 0 then ''-'' @ str_nat (nat (- i)) else str_nat (nat i))"

text \<open>A number printed with \<open>%0wd\<close>: padded with zeros on the left to \<open>w\<close> digits.\<close>

definition zero_padded :: "nat \<Rightarrow> nat \<Rightarrow> string" where
  "zero_padded w n = replicate (w - length (str_nat n)) CHR ''0'' @ str_nat n"

text \<open>
  \<open>datetime.isoformat()\<close> of a naive value: \<open>YYYY-MM-DDTHH:MM:SS\<close>, followed by the
  microseconds when they are not zero.
\<close>

fun isoformat :: "datetime \<Rightarrow> string" where
  "isoformat (y, mo, d, h, mi, s, us) =
     zero_padded 4 y @ ''-'' @ zero_padded 2 mo @ ''-'' @ zero_padded 2 d @ ''T'' @
     zero_padded 2 h @ '':'' @ zero_padded 2 mi @ '':'' @ zero_padded 2 s @
     (if us = 0 then [] else ''.'' @ zero_padded 6 us)"

text \<open>\<open>sep.join(xs)\<close>.\<close>

fun py_join :: "string \<Rightarrow> string list \<Rightarrow> string" where
  "py_join sep [] = []"
| "py_join sep [x] = x"
| "py_join sep (x # y # ys) = x @ sep @ py_join sep (y # ys)"

text \<open>The lines of a triple-quoted literal, each preceded by its line break.\<close>

definition sql_lines :: "string list \<Rightarrow> string" where
  "sql_lines ls = concat (map (\<lambda>l. CHR 0x0A # l) ls)"

text \<open>The literal of \<open>query_single_period\<close>: the values are the parameters \<open>$1\<close>, \<open>$2\<close>, \<open>$3\<close>.\<close>

definition single_query_text :: string where
  "single_query_text = sql_lines
     [''            SELECT'',
      ''                s.sensor_id,'',
      ''                s.measurement_time,'',
      ''                s.measurement_value,'',
      ''                p.start_time,'',
      ''                p.end_time'',
      ''            FROM bench.sensor_data s'',
      ''            JOIN bench.active_periods p'',
      ''              ON s.sensor_id = p.sensor_id'',
      ''             AND s.measurement_time >= p.start_time'',
      ''             AND s.measurement_time < p.end_time'',
      ''            WHERE s.sensor_id = $1'',
      ''              AND s.measurement_time >= $2'',
      ''              AND s.measurement_time < $3'',
      ''              AND p.status = '' @ [CHR 0x27] @ ''DONE'' @ [CHR 0x27]] @
     [CHR 0x0A] @ ''        ''"

text \<open>One element of \<open>or_conditions\<close>: the f-string of lines 237 to 239.\<close>

definition or_condition_text :: "ActivePeriod \<Rightarrow> string" where
  "or_condition_text p =
     ''(s.sensor_id = '' @ str_int (sensor_id p) @ '' '' @
     ''AND s.measurement_time >= '' @ [CHR 0x27] @ isoformat (start_time p) @ [CHR 0x27] @ '' '' @
     ''AND s.measurement_time < '' @ [CHR 0x27] @ isoformat (end_time p) @ [CHR 0x27] @ '')''"

text \<open>The f-string of lines 246 to 262.\<close>

definition batch_query_text :: "ActivePeriod list \<Rightarrow> string" where
  "batch_query_text periods = sql_lines
     [''            SELECT'',
      ''                s.sensor_id,'',
      ''                s.measurement_time,'',
      ''                s.measurement_value,'',
      ''                p.start_time,'',
      ''                p.end_time'',
      ''            FROM bench.sensor_data s'',
      ''            JOIN bench.active_periods p'',
      ''              ON s.sensor_id = p.sensor_id'',
      ''             AND s.measurement_time >= p.start_time'',
      ''             AND s.measurement_time < p.end_time''] @
     [CHR 0x0A] @ ''            WHERE ('' @
     py_join '' OR '' (map or_condition_text periods) @ '')'' @
     sql_lines
     [''              AND s.measurement_time >= $1'',
      ''              AND s.measurement_time < $2'',
      ''              AND p.status = '' @ [CHR 0x27] @ ''DONE'' @ [CHR 0x27]] @
     [CHR 0x0A] @ ''        ''"

text \<open>What is sent to the backend for a request: the text and the bound parameters.\<close>

datatype sql_value = IntValue int | TimeValue datetime

fun request_text :: "request \<Rightarrow> string" where
  "request_text (SingleQuery sid lo hi) = single_query_text"
| "request_text (BatchQuery periods lo hi) = batch_query_text periods"

fun request_params :: "request \<Rightarrow> sql_value list" where
  "request_params (SingleQuery sid lo hi) = [IntValue sid, TimeValue lo, TimeValue hi]"
| "request_params (BatchQuery periods lo hi) = [TimeValue lo, TimeValue hi]"

section \<open>Properties the results are checked against\<close>

text \<open>The invariant of a result: it has failed exactly when it carries an error text.\<close>

definition error_iff_failed :: "QueryResult \<Rightarrow> bool" where
  "error_iff_failed r \<longleftrightarrow> (\<not> success r) = (error r \<noteq> None)"

text \<open>
  Two periods overlap when they are for the same sensor and their half-open intervals
  share a timestamp: the later start lies before the earlier end.
\<close>

definition overlaps :: "ActivePeriod \<Rightarrow> ActivePeriod \<Rightarrow> bool" where
  "overlaps u v \<longleftrightarrow>
     sensor_id u = sensor_id v \<and>
     max (start_time u) (start_time v) < min (end_time u) (end_time v)"

text \<open>No two periods at different positions of the list overlap.\<close>

fun no_overlap :: "ActivePeriod list \<Rightarrow> bool" where
  "no_overlap [] = True"
| "no_overlap (u # us) = (list_all (\<lambda>v. \<not> overlaps u v) us \<and> no_overlap us)"

text \<open>The sum of \<open>row_count\<close> over the successful results.\<close>

definition successful_rows :: "QueryResult list \<Rightarrow> int" where
  "successful_rows results = sum_list (map row_count (filter success results))"

text \<open>The rows the per-unit query of a period selects.\<close>

definition unit_rows :: "backend \<Rightarrow> ActivePeriod \<Rightarrow> nat" where
  "unit_rows b u =
     length (select_rows b (SingleQuery (sensor_id u) (start_time u) (end_time u)))"

section \<open>Notions used in the proofs\<close>

text \<open>How many of its two steps a task still has to take.\<close>

fun remaining :: "'r slot \<Rightarrow> nat" where
  "remaining Pending = 2"
| "remaining Running = 1"
| "remaining (Done r) = 0"

text \<open>
  What every reachable state of the event loop satisfies: one slot per task, the tasks
  in flight and the free permits add up to the semaphore's initial value, and a task
  that is done holds its own outcome.
\<close>

definition loop_inv :: "nat \<Rightarrow> 'r list \<Rightarrow> 'r loop_state \<Rightarrow> bool" where
  "loop_inv m outs s \<longleftrightarrow>
     length (slots s) = length outs \<and>
     in_flight s + sem_value s = m \<and>
     (\<forall>i<length outs. \<forall>r. slots s ! i = Done r \<longrightarrow> r = outs ! i)"

text \<open>
  The groups of \<open>B\<close> consecutive elements of a list, the last one possibly shorter:
  a fixed-size, order-preserving partition.
\<close>

definition batch_groups :: "nat \<Rightarrow> 'a list \<Rightarrow> 'a list list" where
  "batch_groups B xs =
     map (\<lambda>k. take B (drop (k * B) xs)) [0 ..< (length xs + B - 1) div B]"

section \<open>A small database: sensor 42 over three consecutive days\<close>

definition unit_a :: ActivePeriod where
  "unit_a = \<lparr>sensor_id = 42, start_time = (2024, 1, 1, 0, 0, 0, 0),
     end_time = (2024, 1, 2, 0, 0, 0, 0), period_id = Some 1\<rparr>"

definition unit_b :: ActivePeriod where
  "unit_b = \<lparr>sensor_id = 42, start_time = (2024, 1, 2, 0, 0, 0, 0),
     end_time = (2024, 1, 3, 0, 0, 0, 0), period_id = Some 2\<rparr>"

definition unit_c :: ActivePeriod where
  "unit_c = \<lparr>sensor_id = 42, start_time = (2024, 1, 3, 0, 0, 0, 0),
     end_time = (2024, 1, 4, 0, 0, 0, 0), period_id = Some 3\<rparr>"

definition reading :: "nat \<Rightarrow> nat \<Rightarrow> sensor_row" where
  "reading d h = \<lparr>s_sensor_id = 42, measurement_time = (2024, 1, d, h, 0, 0, 0),
     measurement_value = 7\<rparr>"

definition done_period :: "int \<Rightarrow> ActivePeriod \<Rightarrow> period_row" where
  "done_period i u = \<lparr>p_id = i, p_sensor_id = sensor_id u, p_start_time = start_time u,
     p_end_time = end_time u, p_status = ''DONE''\<rparr>"

definition bench_db :: backend where
  "bench_db = \<lparr>sensor_data = [reading 1 6, reading 1 18, reading 2 12, reading 3 9],
     active_periods = [done_period 1 unit_a, done_period 2 unit_b, done_period 3 unit_c],
     acquire_fault = (\<lambda>_. None), fetch_fault = (\<lambda>_. None), elapsed = (\<lambda>_. 1 / 8)\<rparr>"

definition demo_proc :: processor where
  "demo_proc = \<lparr>max_connections = 2, batch_size = 2\<rparr>"

text \<open>The same database behind a backend that cancels every batch query.\<close>

definition flaky_db :: backend where
  "flaky_db = bench_db\<lparr>fetch_fault :=
     (\<lambda>req. case req of
        SingleQuery sid lo hi \<Rightarrow> None
      | BatchQuery us lo hi \<Rightarrow>
          Some (PyException ''QueryCanceledError''
                 ''canceling statement due to statement timeout''))\<rparr>"

section \<open>Built-ins\<close>

lemma py_min_nonempty: "xs \<noteq> [] \<Longrightarrow> py_min xs = Inr (Min (set xs))"
proof (cases xs)
  case (Cons y ys)
  then show ?thesis using Min.set_eq_fold[of y ys] by (simp add: py_min_def)
qed simp

lemma py_max_nonempty: "xs \<noteq> [] \<Longrightarrow> py_max xs = Inr (Max (set xs))"
proof (cases xs)
  case (Cons y ys)
  then show ?thesis using Max.set_eq_fold[of y ys] by (simp add: py_max_def)
qed simp

section \<open>The query operations\<close>

lemma run_query_error_iff_failed: "error_iff_failed (fst (run_query b per req))"
  by (simp add: run_query_def error_iff_failed_def split: option.split sum.split)

lemma query_batch_periods_nonempty:
  "ps \<noteq> [] \<Longrightarrow>
   fst (query_batch_periods b ps) =
     Inr (fst (run_query b None
       (BatchQuery ps (Min (set (map start_time ps))) (Max (set (map end_time ps))))))"
  by (simp add: query_batch_periods_def py_min_nonempty py_max_nonempty split: prod.split)

lemma query_batch_periods_returns:
  "\<exists>q. fst (query_batch_periods b ps) = Inr q \<and> error_iff_failed q"
proof (cases "ps = []")
  case True
  then show ?thesis by (simp add: query_batch_periods_def error_iff_failed_def)
next
  case False
  then show ?thesis
    by (simp add: query_batch_periods_nonempty run_query_error_iff_failed)
qed

text \<open>
  C10. An empty group gives a successful result with no rows, no duration and no
  error, and the effect list is empty: no connection is acquired and no query is
  executed, whatever the backend is.
\<close>

theorem query_batch_periods_empty:
  "query_batch_periods b [] =
     (Inr \<lparr>period = None, row_count = 0, duration_ms = 0, success = True, error = None\<rparr>, [])"
  by (simp add: query_batch_periods_def)

text \<open>
  C7. Every result of \<open>query_single_period\<close>, every result of \<open>query_batch_periods\<close>
  (which always returns one) and every result the dispatcher builds from an exception
  has failed exactly when its error is present.
\<close>

theorem outcome_error_iff_failed:
  "error_iff_failed (fst (query_single_period b p)) \<and>
   (\<exists>q. fst (query_batch_periods b ps) = Inr q \<and> error_iff_failed q) \<and>
   error_iff_failed (exception_result e)"
  using query_batch_periods_returns[of b ps]
  by (simp add: query_single_period_def run_query_error_iff_failed)
     (simp add: error_iff_failed_def exception_result_def)

text \<open>
  C6. For a non-empty group the two bounds exist, every timestamp inside some unit's
  interval lies inside them, and so the batch query's condition with the bounds is the
  disjunction (and the status filter) alone.
\<close>

theorem global_bound_redundant:
  "periods \<noteq> [] \<Longrightarrow>
   \<exists>lo hi. py_min (map start_time periods) = Inr lo \<and>
           py_max (map end_time periods) = Inr hi \<and>
           (list_ex (\<lambda>u. start_time u \<le> t \<and> t < end_time u) periods \<longrightarrow> lo \<le> t \<and> t < hi) \<and>
           (where_clause (BatchQuery periods lo hi) s p \<longleftrightarrow>
              list_ex (\<lambda>u. or_condition u s) periods \<and> p_status p = ''DONE'')"
proof -
  assume ne: "periods \<noteq> []"
  let ?lo = "Min (set (map start_time periods))"
  let ?hi = "Max (set (map end_time periods))"
  have in_bounds: "?lo \<le> x \<and> x < ?hi"
    if "u \<in> set periods" "start_time u \<le> x" "x < end_time u" for u x
  proof -
    have "?lo \<le> start_time u" using that(1) by (intro Min_le) auto
    moreover have "end_time u \<le> ?hi" using that(1) by (intro Max_ge) auto
    ultimately show ?thesis using that(2,3) by (meson order.trans less_le_trans)
  qed
  have 1: "list_ex (\<lambda>u. start_time u \<le> t \<and> t < end_time u) periods \<longrightarrow> ?lo \<le> t \<and> t < ?hi"
    unfolding list_ex_iff using in_bounds[of _ t] by blast
  have 2: "where_clause (BatchQuery periods ?lo ?hi) s p \<longleftrightarrow>
              list_ex (\<lambda>u. or_condition u s) periods \<and> p_status p = ''DONE''"
    unfolding where_clause.simps list_ex_iff or_condition_def
    using in_bounds[of _ "measurement_time s"] by blast
  from ne have "py_min (map start_time periods) = Inr ?lo"
    "py_max (map end_time periods) = Inr ?hi"
    by (simp_all add: py_min_nonempty py_max_nonempty)
  with 1 2 show ?thesis by blast
qed

theorem global_bound_redundant_witness:
  "[unit_a, unit_c] \<noteq> [] \<and>
   (\<exists>lo hi. py_min (map start_time [unit_a, unit_c]) = Inr lo \<and>
           py_max (map end_time [unit_a, unit_c]) = Inr hi \<and>
           (list_ex (\<lambda>u. start_time u \<le> (2024, 1, 3, 12, 0, 0, 0) \<and>
                         (2024, 1, 3, 12, 0, 0, 0) < end_time u) [unit_a, unit_c]
              \<longrightarrow> lo \<le> (2024, 1, 3, 12, 0, 0, 0) \<and> (2024, 1, 3, 12, 0, 0, 0) < hi) \<and>
           (where_clause (BatchQuery [unit_a, unit_c] lo hi) (reading 3 12) (done_period 3 unit_c)
              \<longleftrightarrow> list_ex (\<lambda>u. or_condition u (reading 3 12)) [unit_a, unit_c] \<and>
                  p_status (done_period 3 unit_c) = ''DONE''))"
  using global_bound_redundant[of "[unit_a, unit_c]" "(2024, 1, 3, 12, 0, 0, 0)"
      "reading 3 12" "done_period 3 unit_c"]
  by simp

section \<open>The aggregator\<close>

lemma print_summary_total:
  "\<exists>s. print_summary rs = Inr s \<and>
       total_queries s = length rs \<and>
       successful_count s = length (filter success rs) \<and>
       failed_count s = length (filter (\<lambda>r. \<not> success r) rs) \<and>
       total_rows s = (\<Sum>r\<leftarrow>filter success rs. row_count r) \<and>
       total_duration s = (\<Sum>r\<leftarrow>filter success rs. duration_ms r) \<and>
       avg_duration s = (if filter success rs = [] then 0
            else (\<Sum>r\<leftarrow>filter success rs. duration_ms r) / real (length (filter success rs)))"
proof (cases "filter success rs = []")
  case True
  then show ?thesis by (simp add: print_summary_def)
next
  case False
  then have ne: "map duration_ms (filter success rs) \<noteq> []" by simp
  show ?thesis using False
    by (simp add: print_summary_def Let_def py_truediv_def
        py_min_nonempty[OF ne] py_max_nonempty[OF ne])
qed

text \<open>
  C9. The aggregator always returns a summary, never an exception, and its totals of
  rows and of duration are the sums over the successful results. On a list whose
  results have all failed the successful count, the total of rows and the average
  duration are 0, and no minimum or maximum is computed.
\<close>

theorem print_summary_all_failed:
  "(\<exists>s. print_summary rs = Inr s \<and>
        total_rows s = (\<Sum>r\<leftarrow>filter success rs. row_count r) \<and>
        total_duration s = (\<Sum>r\<leftarrow>filter success rs. duration_ms r)) \<and>
   ((\<forall>r\<in>set rs. \<not> success r) \<longrightarrow>
      (\<exists>s. print_summary rs = Inr s \<and> successful_count s = 0 \<and> failed_count s = length rs \<and>
           total_rows s = 0 \<and> total_duration s = 0 \<and> avg_duration s = 0 \<and>
           min_duration s = None \<and> max_duration s = None))"
proof (intro conjI impI)
  show "\<exists>s. print_summary rs = Inr s \<and>
        total_rows s = (\<Sum>r\<leftarrow>filter success rs. row_count r) \<and>
        total_duration s = (\<Sum>r\<leftarrow>filter success rs. duration_ms r)"
    using print_summary_total[of rs] by blast
next
  assume a: "\<forall>r\<in>set rs. \<not> success r"
  then have f: "filter success rs = []" by (simp add: filter_empty_conv)
  from a have g: "filter (\<lambda>r. \<not> success r) rs = rs" by (simp add: filter_id_conv)
  show "\<exists>s. print_summary rs = Inr s \<and> successful_count s = 0 \<and> failed_count s = length rs \<and>
           total_rows s = 0 \<and> total_duration s = 0 \<and> avg_duration s = 0 \<and>
           min_duration s = None \<and> max_duration s = None"
    by (simp add: print_summary_def f g)
qed

theorem print_summary_all_failed_witness:
  "\<not> success (exception_result (PyException ''RuntimeError'' ''boom'')) \<and>
   (\<exists>s. print_summary [exception_result (PyException ''RuntimeError'' ''boom'')] = Inr s \<and>
        successful_count s = 0 \<and> failed_count s = 1 \<and> total_rows s = 0 \<and>
        total_duration s = 0 \<and> avg_duration s = 0 \<and>
        min_duration s = None \<and> max_duration s = None)"
  using print_summary_all_failed[of "[exception_result (PyException ''RuntimeError'' ''boom'')]"]
  by (simp add: exception_result_def)

section \<open>The event loop under the semaphore\<close>

lemma filter_length_update:
  "i < length xs \<Longrightarrow>
   length (filter P (xs[i := v])) + (if P (xs ! i) then 1 else 0) =
   length (filter P xs) + (if P v then 1 else 0)"
proof (induction xs arbitrary: i)
  case Nil
  then show ?case by simp
next
  case (Cons x xs)
  show ?case
  proof (cases i)
    case 0
    then show ?thesis by simp
  next
    case (Suc j)
    with Cons.prems have "j < length xs" by simp
    from Cons.IH[OF this] Suc show ?thesis by simp
  qed
qed

lemma sum_remaining_update:
  "i < length xs \<Longrightarrow>
   sum_list (map remaining (xs[i := v])) + remaining (xs ! i) =
   sum_list (map remaining xs) + remaining v"
proof (induction xs arbitrary: i)
  case Nil
  then show ?case by simp
next
  case (Cons x xs)
  show ?case
  proof (cases i)
    case 0
    then show ?thesis by simp
  next
    case (Suc j)
    with Cons.prems have "j < length xs" by simp
    from Cons.IH[OF this] Suc show ?thesis by simp
  qed
qed

lemma gathered_map_Done: "gathered (map Done rs) = Some rs"
  by (induction rs) simp_all

lemma gathered_SomeD: "gathered ss = Some rs \<Longrightarrow> ss = map Done rs"
  by (induction ss arbitrary: rs rule: gathered.induct) (auto split: option.splits)

lemma loop_start_inv: "0 \<le> m \<Longrightarrow> loop_inv (nat m) outs (loop_start m outs)"
  by (simp add: loop_inv_def loop_start_def in_flight_def)

lemma advance_inv:
  assumes "loop_inv m outs s"
  shows "loop_inv m outs (advance outs i s)"
proof (cases "i < length (slots s)")
  case False
  then show ?thesis using assms by (simp add: advance_def)
next
  case True
  note i = this
  show ?thesis
  proof (cases "slots s ! i")
    case Pending
    show ?thesis
    proof (cases "0 < sem_value s")
      case False
      then show ?thesis using assms i Pending by (simp add: advance_def)
    next
      case True
      have "length (filter is_running ((slots s)[i := Running])) = in_flight s + 1"
        using filter_length_update[OF i, of is_running Running] Pending
        by (simp add: in_flight_def)
      then show ?thesis using assms i Pending True
        by (auto simp: advance_def loop_inv_def in_flight_def nth_list_update)
    qed
  next
    case Running
    have "length (filter is_running ((slots s)[i := Done (outs ! i)])) + 1 = in_flight s"
      using filter_length_update[OF i, of is_running "Done (outs ! i)"] Running
      by (simp add: in_flight_def)
    then show ?thesis using assms i Running
      by (auto simp: advance_def loop_inv_def in_flight_def nth_list_update)
  next
    case (Done r)
    then show ?thesis using assms i by (simp add: advance_def)
  qed
qed

lemma event_loop_inv: "loop_inv m outs s \<Longrightarrow> loop_inv m outs (event_loop outs sched s)"
  unfolding event_loop_def
  by (induction sched arbitrary: s) (simp_all add: advance_inv)

lemma event_loop_append:
  "event_loop outs (xs @ ys) s = event_loop outs ys (event_loop outs xs s)"
  by (simp add: event_loop_def)

lemma inv_gathered: "loop_inv m outs s \<Longrightarrow> gathered (slots s) = Some rs \<Longrightarrow> rs = outs"
proof -
  assume inv: "loop_inv m outs s" and g: "gathered (slots s) = Some rs"
  from g have eq: "slots s = map Done rs" by (rule gathered_SomeD)
  with inv have len: "length rs = length outs" by (simp add: loop_inv_def)
  show "rs = outs"
  proof (rule nth_equalityI[OF len])
    fix i assume "i < length rs"
    then show "rs ! i = outs ! i" using inv eq len by (simp add: loop_inv_def)
  qed
qed

lemma can_complete:
  "loop_inv m outs s \<Longrightarrow> 0 < m \<Longrightarrow>
   \<exists>more. gathered (slots (event_loop outs more s)) = Some outs"
proof (induction "sum_list (map remaining (slots s))" arbitrary: s rule: less_induct)
  case less
  note inv = less.prems(1)
  have len: "length (slots s) = length outs" using inv by (simp add: loop_inv_def)
  show ?case
  proof (cases "\<exists>j<length (slots s). slots s ! j = Running")
    case True
    then obtain j where j: "j < length (slots s)" "slots s ! j = Running" by blast
    let ?s' = "advance outs j s"
    have s': "slots ?s' = (slots s)[j := Done (outs ! j)]" using j by (simp add: advance_def)
    have "sum_list (map remaining (slots ?s')) < sum_list (map remaining (slots s))"
      using sum_remaining_update[OF j(1), of "Done (outs ! j)"] j(2) s' by simp
    from less.hyps[OF this advance_inv[OF inv] less.prems(2)]
    obtain more where "gathered (slots (event_loop outs more ?s')) = Some outs" by blast
    then have "gathered (slots (event_loop outs (j # more) s)) = Some outs"
      by (simp add: event_loop_def)
    then show ?thesis by blast
  next
    case False
    note no_running = this
    show ?thesis
    proof (cases "\<exists>j<length (slots s). slots s ! j = Pending")
      case True
      then obtain j where j: "j < length (slots s)" "slots s ! j = Pending" by blast
      have "\<forall>x\<in>set (slots s). \<not> is_running x"
      proof
        fix x assume "x \<in> set (slots s)"
        then obtain k where "k < length (slots s)" "slots s ! k = x"
          by (auto simp: in_set_conv_nth)
        with no_running show "\<not> is_running x" by (cases x) auto
      qed
      then have "in_flight s = 0" by (simp add: in_flight_def filter_empty_conv)
      with inv less.prems(2) have pos: "0 < sem_value s" by (simp add: loop_inv_def)
      let ?s' = "advance outs j s"
      have s': "slots ?s' = (slots s)[j := Running]" using j pos by (simp add: advance_def)
      have "sum_list (map remaining (slots ?s')) < sum_list (map remaining (slots s))"
        using sum_remaining_update[OF j(1), of Running] j(2) s' by simp
      from less.hyps[OF this advance_inv[OF inv] less.prems(2)]
      obtain more where "gathered (slots (event_loop outs more ?s')) = Some outs" by blast
      then have "gathered (slots (event_loop outs (j # more) s)) = Some outs"
        by (simp add: event_loop_def)
      then show ?thesis by blast
    next
      case False
      have "slots s = map Done outs"
      proof (rule nth_equalityI)
        show "length (slots s) = length (map Done outs)" using len by simp
      next
        fix i assume i: "i < length (slots s)"
        with no_running False obtain r where r: "slots s ! i = Done r"
          by (cases "slots s ! i") auto
        with inv i len have "r = outs ! i" by (simp add: loop_inv_def)
        with r i len show "slots s ! i = map Done outs ! i" by simp
      qed
      then have "gathered (slots (event_loop outs [] s)) = Some outs"
        by (simp add: event_loop_def gathered_map_Done)
      then show ?thesis by blast
    qed
  qed
qed

lemma bounded_gather_returns:
  "bounded_gather m outs sched = Returns rs \<Longrightarrow> rs = outs"
  by (auto simp: bounded_gather_def split: if_splits option.splits
      dest!: inv_gathered[OF event_loop_inv[OF loop_start_inv], rotated])


lemma bounded_gather_completes:
  "0 < m \<Longrightarrow> \<exists>more. bounded_gather m outs (sched @ more) = Returns outs"
proof -
  assume m: "0 < m"
  then have "loop_inv (nat m) outs (event_loop outs sched (loop_start m outs))"
    by (intro event_loop_inv loop_start_inv) simp
  from can_complete[OF this] m obtain more where
    "gathered (slots (event_loop outs more (event_loop outs sched (loop_start m outs)))) = Some outs"
    by auto
  then have "bounded_gather m outs (sched @ more) = Returns outs"
    using m by (simp add: bounded_gather_def event_loop_append)
  then show ?thesis by blast
qed

lemma blocked_advance:
  "sem_value s = 0 \<Longrightarrow> \<forall>x\<in>set (slots s). x = Pending \<Longrightarrow> advance outs i s = s"
proof (cases "i < length (slots s)")
  case True
  assume z: "sem_value s = 0" and p: "\<forall>x\<in>set (slots s). x = Pending"
  from True p have "slots s ! i = Pending" by (simp add: nth_mem)
  with True z show ?thesis by (simp add: advance_def)
next
  case False
  then show ?thesis by (simp add: advance_def)
qed

lemma blocked_event_loop:
  "sem_value s = 0 \<Longrightarrow> \<forall>x\<in>set (slots s). x = Pending \<Longrightarrow> event_loop outs sched s = s"
  unfolding event_loop_def
  by (induction sched) (simp_all add: blocked_advance)

lemma bounded_gather_blocked:
  "outs \<noteq> [] \<Longrightarrow> bounded_gather 0 outs sched = Awaiting"
proof -
  assume ne: "outs \<noteq> []"
  have "event_loop outs sched (loop_start 0 outs) = loop_start 0 outs"
    by (rule blocked_event_loop) (simp_all add: loop_start_def)
  moreover have "gathered (slots (loop_start 0 outs)) = None"
    using ne by (cases outs) (simp_all add: loop_start_def)
  ultimately show ?thesis by (simp add: bounded_gather_def)
qed

section \<open>The dispatcher\<close>

lemma handle_exceptions_length: "length (handle_exceptions rs) = length rs"
  by (induction rs) simp_all

lemma handle_exceptions_map:
  "handle_exceptions rs = map (\<lambda>r. case r of Inl e \<Rightarrow> exception_result e | Inr q \<Rightarrow> q) rs"
  by (induction rs) simp_all

lemma dispatch_tasks_returns:
  "dispatch_tasks m tasks sched = Returns R \<Longrightarrow> R = handle_exceptions tasks"
  by (auto simp: dispatch_tasks_def split: run.splits dest: bounded_gather_returns)


lemma dispatch_tasks_completes:
  "0 < m \<Longrightarrow> \<exists>more. dispatch_tasks m tasks (sched @ more) = Returns (handle_exceptions tasks)"
proof -
  assume "0 < m"
  from bounded_gather_completes[OF this, of tasks sched] obtain more where
    "bounded_gather m tasks (sched @ more) = Returns tasks" by blast
  then have "dispatch_tasks m tasks (sched @ more) = Returns (handle_exceptions tasks)"
    by (simp add: dispatch_tasks_def)
  then show ?thesis by blast
qed


section \<open>Batches\<close>

lemma group_index_in_range:
  assumes "0 < B" "k < (n + B - 1) div B"
  shows "k * B < (n::nat)"
proof -
  from assms(2) have "Suc k \<le> (n + B - 1) div B" by simp
  then have "Suc k * B \<le> n + B - 1"
    using assms(1) by (simp add: less_eq_div_iff_mult_less_eq)
  then show ?thesis using assms(1) by (cases n) auto
qed

lemma groups_cover:
  assumes "0 < B"
  shows "(n::nat) \<le> ((n + B - 1) div B) * B"
proof -
  have "(n + B - 1) div B * B + (n + B - 1) mod B = n + B - 1" by simp
  moreover have "(n + B - 1) mod B < B" using assms by simp
  ultimately show ?thesis by linarith
qed

lemma concat_groups_take:
  "concat (map (\<lambda>k. take B (drop (k * B) xs)) [0 ..< j]) = take (j * B) xs"
proof (induction j)
  case 0
  then show ?case by simp
next
  case (Suc j)
  have "take (j * B + B) xs = take (j * B) xs @ take B (drop (j * B) xs)"
    by (rule take_add)
  with Suc show ?case by (simp add: add.commute)
qed

lemma concat_batch_groups: "0 < B \<Longrightarrow> concat (batch_groups B xs) = xs"
  using groups_cover[of B "length xs"]
  by (simp add: batch_groups_def concat_groups_take)

lemma length_batch_groups: "length (batch_groups B xs) = (length xs + B - 1) div B"
  by (simp add: batch_groups_def)

lemma nth_batch_groups:
  "i < length (batch_groups B xs) \<Longrightarrow> batch_groups B xs ! i = take B (drop (i * B) xs)"
  by (simp add: batch_groups_def)

lemma batch_groups_nonempty:
  assumes "0 < B" "g \<in> set (batch_groups B xs)"
  shows "g \<noteq> [] \<and> length g \<le> B"
proof -
  from assms(2) obtain k where k: "k < (length xs + B - 1) div B" "g = take B (drop (k * B) xs)"
    by (auto simp: batch_groups_def)
  from group_index_in_range[OF assms(1) k(1)] have "k * B < length xs" .
  with k(2) assms(1) show ?thesis by simp
qed

lemma ceiling_groups:
  assumes "0 < B"
  shows "int ((n + B - 1) div B) = \<lceil>real n / real B\<rceil>"
proof -
  let ?q = "(n + B - 1) div B"
  have up: "real n / real B \<le> real ?q"
  proof -
    have "real n \<le> real (?q * B)" using groups_cover[OF assms, of n] by (simp only: of_nat_le_iff)
    then show ?thesis using assms by (simp add: divide_le_eq)
  qed
  have lo: "real ?q - 1 < real n / real B"
  proof (cases "?q = 0")
    case True
    have "0 \<le> real n / real B" by simp
    with True show ?thesis by linarith
  next
    case False
    then have "?q - 1 < ?q" by simp
    from group_index_in_range[OF assms this] have "real ((?q - 1) * B) < real n"
      by (simp only: of_nat_less_iff)
    moreover have "real (?q - 1) = real ?q - 1" using False by (simp add: of_nat_diff)
    ultimately have "(real ?q - 1) * real B < real n" by simp
    then show ?thesis using assms by (simp add: less_divide_eq)
  qed
  have "\<lceil>real n / real B\<rceil> = int ?q"
    by (rule ceiling_unique) (use lo up in simp_all)
  then show ?thesis by simp
qed

lemma py_range_groups:
  assumes "0 < bs"
  shows "py_range 0 (int n) bs = Inr (map (\<lambda>k. int k * bs) [0 ..< (n + nat bs - 1) div nat bs])"
proof -
  obtain B where B: "bs = int B" "0 < B" using assms by (metis zero_less_imp_eq_int)
  have "int n + int B - 1 = int (n + B - 1)" using B(2) by (simp add: of_nat_diff)
  then have "(int n + int B - 1) div int B = int (n + B - 1) div int B"
    by (simp only:)
  also have "\<dots> = int ((n + B - 1) div B)" by (rule zdiv_int[symmetric])
  finally have "nat ((int n + int B - 1) div int B) = (n + B - 1) div B"
    by (simp only: nat_int)
  then show ?thesis using B by (simp add: py_range_def)
qed

lemma py_slice_nat:
  "py_slice xs (int i) (int j) =
     take (min j (length xs) - min i (length xs)) (drop (min i (length xs)) xs)"
proof -
  have a: "min (int i) (int (length xs)) = int (min i (length xs))" by simp
  have b: "min (int j) (int (length xs)) = int (min j (length xs))" by simp
  show ?thesis
    unfolding py_slice_def Let_def a b by (simp add: nat_diff_distrib')
qed

lemma py_slice_group:
  assumes "0 < bs" "k * nat bs < length xs"
  shows "py_slice xs (int k * bs) (int k * bs + bs) = take (nat bs) (drop (k * nat bs) xs)"
proof -
  obtain B where B: "bs = int B" "0 < B" using assms(1) by (metis zero_less_imp_eq_int)
  have lt: "k * B < length xs" using assms(2) B by simp
  have "py_slice xs (int k * bs) (int k * bs + bs) = py_slice xs (int (k * B)) (int (k * B + B))"
    using B by simp
  also have "\<dots> = take (min (k * B + B) (length xs) - k * B) (drop (k * B) xs)"
    unfolding py_slice_nat using lt by (simp add: min_def)
  also have "\<dots> = take B (drop (k * B) xs)"
  proof (cases "k * B + B \<le> length xs")
    case True
    then show ?thesis by (simp add: min_def)
  next
    case False
    then show ?thesis by (simp add: min_def)
  qed
  finally show ?thesis using B by simp
qed

lemma make_batches_groups:
  assumes "0 < batch_size proc"
  shows "make_batches proc ps = Inr (batch_groups (nat (batch_size proc)) ps)"
proof -
  let ?bs = "batch_size proc" and ?B = "nat (batch_size proc)"
  have B: "0 < ?B" using assms by simp
  have "map (\<lambda>i. py_slice ps i (i + ?bs))
          (map (\<lambda>k. int k * ?bs) [0 ..< (length ps + ?B - 1) div ?B]) =
        map (\<lambda>k. take ?B (drop (k * ?B) ps)) [0 ..< (length ps + ?B - 1) div ?B]"
    unfolding map_map comp_def
  proof (rule map_cong[OF refl])
    fix k assume "k \<in> set [0 ..< (length ps + ?B - 1) div ?B]"
    then have "k < (length ps + ?B - 1) div ?B" by simp
    from group_index_in_range[OF B this] have "k * ?B < length ps" .
    from py_slice_group[OF assms this]
    show "py_slice ps (int k * ?bs) (int k * ?bs + ?bs) = take ?B (drop (k * ?B) ps)" .
  qed
  then show ?thesis
    by (simp only: make_batches_def py_range_groups[OF assms] batch_groups_def sum.case)
qed

lemma make_tasks_single:
  "make_tasks proc b ps False = Inr (map (\<lambda>p. Inr (fst (query_single_period b p))) ps)"
  by (simp add: make_tasks_def)

lemma make_tasks_batched:
  "0 < batch_size proc \<Longrightarrow>
   make_tasks proc b ps True =
     Inr (map (\<lambda>g. fst (query_batch_periods b g)) (batch_groups (nat (batch_size proc)) ps))"
  by (simp add: make_tasks_def make_batches_groups)

lemma process_single:
  "process_all_periods_parallel proc b sched ps False =
     dispatch_tasks (max_connections proc) (map (\<lambda>p. Inr (fst (query_single_period b p))) ps) sched"
  by (simp add: process_all_periods_parallel_def make_tasks_single)

lemma process_batched:
  "0 < batch_size proc \<Longrightarrow>
   process_all_periods_parallel proc b sched ps True =
     dispatch_tasks (max_connections proc)
       (map (\<lambda>g. fst (query_batch_periods b g)) (batch_groups (nat (batch_size proc)) ps)) sched"
  by (simp add: process_all_periods_parallel_def make_tasks_batched)

section \<open>Two runs on the small database\<close>

lemma run_per_unit:
  "process_all_periods_parallel demo_proc bench_db [0, 1, 2, 0, 1, 2, 2]
     [unit_a, unit_b, unit_c] False =
   Returns [\<lparr>period = Some unit_a, row_count = 2, duration_ms = 125, success = True, error = None\<rparr>,
            \<lparr>period = Some unit_b, row_count = 1, duration_ms = 125, success = True, error = None\<rparr>,
            \<lparr>period = Some unit_c, row_count = 1, duration_ms = 125, success = True, error = None\<rparr>]"
  by code_simp

lemma run_per_unit_reordered:
  "process_all_periods_parallel demo_proc bench_db [2, 1, 2, 1, 0, 0]
     [unit_a, unit_b, unit_c] False =
   Returns [\<lparr>period = Some unit_a, row_count = 2, duration_ms = 125, success = True, error = None\<rparr>,
            \<lparr>period = Some unit_b, row_count = 1, duration_ms = 125, success = True, error = None\<rparr>,
            \<lparr>period = Some unit_c, row_count = 1, duration_ms = 125, success = True, error = None\<rparr>]"
  by code_simp

lemma run_batched:
  "process_all_periods_parallel demo_proc bench_db [1, 0, 0, 1] [unit_a, unit_b, unit_c] True =
   Returns [\<lparr>period = None, row_count = 3, duration_ms = 125, success = True, error = None\<rparr>,
            \<lparr>period = None, row_count = 1, duration_ms = 125, success = True, error = None\<rparr>]"
  by code_simp

section \<open>What the dispatcher guarantees\<close>



text \<open>
  C2. Whichever strategy built the tasks and whatever the event loop has done so far,
  the tasks in flight and the free permits of the semaphore add up to
  \<open>max_connections\<close>: a task is in flight exactly while it holds a permit, and never
  more than \<open>max_connections\<close> are.
\<close>

theorem in_flight_bounded:
  assumes "make_tasks proc b periods use_batching = Inr tasks"
    and "0 \<le> max_connections proc"
  shows "in_flight (event_loop tasks sched (loop_start (max_connections proc) tasks)) +
           sem_value (event_loop tasks sched (loop_start (max_connections proc) tasks)) =
         nat (max_connections proc) \<and>
         int (in_flight (event_loop tasks sched (loop_start (max_connections proc) tasks))) \<le>
         max_connections proc"
proof -
  have "loop_inv (nat (max_connections proc)) tasks
          (event_loop tasks sched (loop_start (max_connections proc) tasks))"
    by (intro event_loop_inv loop_start_inv assms(2))
  then show ?thesis using assms(2) by (auto simp: loop_inv_def)
qed

theorem in_flight_bounded_witness:
  "make_tasks demo_proc bench_db [unit_a, unit_b, unit_c] False =
     Inr (map (\<lambda>p. Inr (fst (query_single_period bench_db p))) [unit_a, unit_b, unit_c]) \<and>
   0 \<le> max_connections demo_proc \<and>
   in_flight (event_loop (map (\<lambda>p. Inr (fst (query_single_period bench_db p))) [unit_a, unit_b, unit_c])
       [0, 1, 2] (loop_start (max_connections demo_proc)
         (map (\<lambda>p. Inr (fst (query_single_period bench_db p))) [unit_a, unit_b, unit_c]))) = 2 \<and>
   sem_value (event_loop (map (\<lambda>p. Inr (fst (query_single_period bench_db p))) [unit_a, unit_b, unit_c])
       [0, 1, 2] (loop_start (max_connections demo_proc)
         (map (\<lambda>p. Inr (fst (query_single_period bench_db p))) [unit_a, unit_b, unit_c]))) = 0"
  using in_flight_bounded[OF make_tasks_single, of demo_proc bench_db "[unit_a, unit_b, unit_c]" "[0, 1, 2]"]
  by (simp add: make_tasks_single demo_proc_def event_loop_def advance_def loop_start_def in_flight_def)

text \<open>
  C3. A returned list follows the input: in per-unit mode its \<open>i\<close>-th result is the
  result of the query for the \<open>i\<close>-th period, in batched mode that of the query for the
  \<open>i\<close>-th batch. The order in which the event loop resumes the tasks has no influence:
  two calls that return have returned the same list.
\<close>

theorem results_follow_input_order:
  "(\<forall>R. process_all_periods_parallel proc b sched periods False = Returns R \<longrightarrow>
        length R = length periods \<and>
        (\<forall>i<length periods. R ! i = fst (query_single_period b (periods ! i)))) \<and>
   (\<forall>R. process_all_periods_parallel proc b sched periods True = Returns R \<longrightarrow>
        (\<exists>batches. make_batches proc periods = Inr batches \<and>
           length R = length batches \<and>
           (\<forall>i<length batches. fst (query_batch_periods b (batches ! i)) = Inr (R ! i)))) \<and>
   (\<forall>R R'. process_all_periods_parallel proc b sched periods use_batching = Returns R \<longrightarrow>
        process_all_periods_parallel proc b sched' periods use_batching = Returns R' \<longrightarrow>
        R = R')"
proof (intro conjI allI impI)
  fix R assume "process_all_periods_parallel proc b sched periods False = Returns R"
  then have R: "R = handle_exceptions (map (\<lambda>p. Inr (fst (query_single_period b p))) periods)"
    unfolding process_single by (rule dispatch_tasks_returns)
  show "length R = length periods" by (simp add: R handle_exceptions_length)
  fix i assume "i < length periods"
  then show "R ! i = fst (query_single_period b (periods ! i))"
    by (simp add: R handle_exceptions_map)
next
  fix R assume ret: "process_all_periods_parallel proc b sched periods True = Returns R"
  then obtain batches where batches: "make_batches proc periods = Inr batches"
    by (cases "make_batches proc periods")
       (simp_all add: process_all_periods_parallel_def make_tasks_def)
  with ret have R: "R = handle_exceptions (map (\<lambda>g. fst (query_batch_periods b g)) batches)"
    by (auto simp: process_all_periods_parallel_def make_tasks_def dest: dispatch_tasks_returns)
  have "fst (query_batch_periods b (batches ! i)) = Inr (R ! i)" if "i < length batches" for i
  proof -
    from query_batch_periods_returns[of b "batches ! i"] obtain q where
      "fst (query_batch_periods b (batches ! i)) = Inr q" by blast
    with that show ?thesis by (simp add: R handle_exceptions_map)
  qed
  moreover have "length R = length batches" by (simp add: R handle_exceptions_length)
  ultimately show "\<exists>batches. make_batches proc periods = Inr batches \<and>
           length R = length batches \<and>
           (\<forall>i<length batches. fst (query_batch_periods b (batches ! i)) = Inr (R ! i))"
    using batches by blast
next
  fix R R'
  assume a: "process_all_periods_parallel proc b sched periods use_batching = Returns R"
    and a': "process_all_periods_parallel proc b sched' periods use_batching = Returns R'"
  from a obtain tasks where tasks: "make_tasks proc b periods use_batching = Inr tasks"
    by (cases "make_tasks proc b periods use_batching")
       (simp_all add: process_all_periods_parallel_def)
  from a tasks have "R = handle_exceptions tasks"
    by (auto simp: process_all_periods_parallel_def dest: dispatch_tasks_returns)
  moreover from a' tasks have "R' = handle_exceptions tasks"
    by (auto simp: process_all_periods_parallel_def dest: dispatch_tasks_returns)
  ultimately show "R = R'" by simp
qed

theorem results_follow_input_order_witness:
  "process_all_periods_parallel demo_proc bench_db [0, 1, 2, 0, 1, 2, 2]
     [unit_a, unit_b, unit_c] False =
   Returns [\<lparr>period = Some unit_a, row_count = 2, duration_ms = 125, success = True, error = None\<rparr>,
            \<lparr>period = Some unit_b, row_count = 1, duration_ms = 125, success = True, error = None\<rparr>,
            \<lparr>period = Some unit_c, row_count = 1, duration_ms = 125, success = True, error = None\<rparr>] \<and>
   process_all_periods_parallel demo_proc bench_db [2, 1, 2, 1, 0, 0]
     [unit_a, unit_b, unit_c] False =
   process_all_periods_parallel demo_proc bench_db [0, 1, 2, 0, 1, 2, 2]
     [unit_a, unit_b, unit_c] False \<and>
   fst (query_single_period bench_db ([unit_a, unit_b, unit_c] ! 1)) =
     \<lparr>period = Some unit_b, row_count = 1, duration_ms = 125, success = True, error = None\<rparr>"
  using results_follow_input_order[of demo_proc bench_db "[0, 1, 2, 0, 1, 2, 2]"
      "[unit_a, unit_b, unit_c]" False "[2, 1, 2, 1, 0, 0]"]
    run_per_unit run_per_unit_reordered
  by (simp add: All_less_Suc)

text \<open>
  C8. With a positive number of connections the dispatcher can always run on to a
  returned list. In per-unit mode a returned list has one result per period. In batched
  mode, for a positive batch size, the batches are non-empty, hold at most
  \<open>batch_size\<close> periods each and are the period list cut in order, and a returned list
  has one result per batch, \<open>ceil(len(periods) / batch_size)\<close> in all.
\<close>

theorem outcome_count:
  assumes "0 < max_connections proc"
  shows
  "(\<exists>more R. process_all_periods_parallel proc b (sched @ more) periods False = Returns R) \<and>
   (\<forall>R. process_all_periods_parallel proc b sched periods False = Returns R \<longrightarrow>
        length R = length periods) \<and>
   (0 < batch_size proc \<longrightarrow>
      (\<exists>more R. process_all_periods_parallel proc b (sched @ more) periods True = Returns R) \<and>
      (\<forall>R. process_all_periods_parallel proc b sched periods True = Returns R \<longrightarrow>
           int (length R) = \<lceil>real (length periods) / real_of_int (batch_size proc)\<rceil>) \<and>
      (\<exists>batches. make_batches proc periods = Inr batches \<and>
         concat batches = periods \<and>
         int (length batches) = \<lceil>real (length periods) / real_of_int (batch_size proc)\<rceil> \<and>
         (\<forall>g\<in>set batches. g \<noteq> [] \<and> int (length g) \<le> batch_size proc)))"
proof (intro conjI allI impI)
  show "\<exists>more R. process_all_periods_parallel proc b (sched @ more) periods False = Returns R"
    unfolding process_single using dispatch_tasks_completes[OF assms] by blast
next
  fix R assume "process_all_periods_parallel proc b sched periods False = Returns R"
  then have "R = handle_exceptions (map (\<lambda>p. Inr (fst (query_single_period b p))) periods)"
    unfolding process_single by (rule dispatch_tasks_returns)
  then show "length R = length periods" by (simp add: handle_exceptions_length)
next
  assume bs: "0 < batch_size proc"
  show "\<exists>more R. process_all_periods_parallel proc b (sched @ more) periods True = Returns R"
    unfolding process_batched[OF bs] using dispatch_tasks_completes[OF assms] by blast
next
  assume bs: "0 < batch_size proc"
  let ?B = "nat (batch_size proc)"
  have B: "0 < ?B" using bs by simp
  have ceil: "int (length (batch_groups ?B periods)) =
      \<lceil>real (length periods) / real_of_int (batch_size proc)\<rceil>"
    using ceiling_groups[OF B, of "length periods"] bs by (simp add: length_batch_groups)
  { fix R assume "process_all_periods_parallel proc b sched periods True = Returns R"
    then have "R = handle_exceptions
        (map (\<lambda>g. fst (query_batch_periods b g)) (batch_groups ?B periods))"
      unfolding process_batched[OF bs] by (rule dispatch_tasks_returns)
    then have "length R = length (batch_groups ?B periods)"
      by (simp add: handle_exceptions_length)
    with ceil show "int (length R) = \<lceil>real (length periods) / real_of_int (batch_size proc)\<rceil>"
      by simp }
  have "\<forall>g\<in>set (batch_groups ?B periods). g \<noteq> [] \<and> int (length g) \<le> batch_size proc"
    using batch_groups_nonempty[OF B] bs by fastforce
  with ceil concat_batch_groups[OF B, of periods] make_batches_groups[OF bs, of periods]
  show "\<exists>batches. make_batches proc periods = Inr batches \<and>
         concat batches = periods \<and>
         int (length batches) = \<lceil>real (length periods) / real_of_int (batch_size proc)\<rceil> \<and>
         (\<forall>g\<in>set batches. g \<noteq> [] \<and> int (length g) \<le> batch_size proc)"
    by blast
qed

theorem outcome_count_witness:
  "0 < max_connections demo_proc \<and> 0 < batch_size demo_proc \<and>
   process_all_periods_parallel demo_proc bench_db [0, 1, 2, 0, 1, 2, 2]
     [unit_a, unit_b, unit_c] False =
   Returns [\<lparr>period = Some unit_a, row_count = 2, duration_ms = 125, success = True, error = None\<rparr>,
            \<lparr>period = Some unit_b, row_count = 1, duration_ms = 125, success = True, error = None\<rparr>,
            \<lparr>period = Some unit_c, row_count = 1, duration_ms = 125, success = True, error = None\<rparr>] \<and>
   process_all_periods_parallel demo_proc bench_db [1, 0, 0, 1] [unit_a, unit_b, unit_c] True =
   Returns [\<lparr>period = None, row_count = 3, duration_ms = 125, success = True, error = None\<rparr>,
            \<lparr>period = None, row_count = 1, duration_ms = 125, success = True, error = None\<rparr>] \<and>
   \<lceil>real (length [unit_a, unit_b, unit_c]) / real_of_int (batch_size demo_proc)\<rceil> = 2"
  using outcome_count[of demo_proc bench_db "[1, 0, 0, 1]" "[unit_a, unit_b, unit_c]"]
    run_per_unit run_batched
  by (simp add: demo_proc_def)

section \<open>Overlap and the rows of a group\<close>

lemma intervals_meet:
  fixes a b c d :: "'a::linorder"
  shows "max a c < min b d \<longleftrightarrow> (\<exists>t. a \<le> t \<and> t < b \<and> c \<le> t \<and> t < d)"
proof
  assume "max a c < min b d"
  then have "a \<le> max a c \<and> max a c < b \<and> c \<le> max a c \<and> max a c < d" by simp
  then show "\<exists>t. a \<le> t \<and> t < b \<and> c \<le> t \<and> t < d" by (rule exI)
next
  assume "\<exists>t. a \<le> t \<and> t < b \<and> c \<le> t \<and> t < d"
  then obtain t where t: "a \<le> t" "t < b" "c \<le> t" "t < d" by blast
  from t(1,3) have "max a c \<le> t" by simp
  moreover from t(2,4) have "t < min b d" by simp
  ultimately show "max a c < min b d" by (rule le_less_trans)
qed

lemma overlaps_iff:
  "overlaps u v \<longleftrightarrow>
     sensor_id u = sensor_id v \<and>
     (\<exists>t. start_time u \<le> t \<and> t < end_time u \<and> start_time v \<le> t \<and> t < end_time v)"
  by (simp only: overlaps_def intervals_meet)

lemma or_conditions_exclusive:
  assumes "\<not> overlaps u v"
  shows "\<not> (or_condition u s \<and> or_condition v s)"
proof
  assume "or_condition u s \<and> or_condition v s"
  then have c: "s_sensor_id s = sensor_id u" "s_sensor_id s = sensor_id v"
    "start_time u \<le> measurement_time s \<and> measurement_time s < end_time u \<and>
     start_time v \<le> measurement_time s \<and> measurement_time s < end_time v"
    unfolding or_condition_def by blast+
  from c(1,2) have "sensor_id u = sensor_id v" by (rule trans[OF sym])
  note this c(3)
  then have "overlaps u v" unfolding overlaps_iff by blast
  with assms show False by contradiction
qed

lemma filter_disj_length:
  "(\<And>x. x \<in> set xs \<Longrightarrow> \<not> (P x \<and> Q x)) \<Longrightarrow>
   length (filter (\<lambda>x. P x \<or> Q x) xs) = length (filter P xs) + length (filter Q xs)"
  by (induction xs) auto

lemma no_overlap_take: "no_overlap xs \<Longrightarrow> no_overlap (take n xs)"
proof (induction xs arbitrary: n)
  case Nil
  then show ?case by simp
next
  case (Cons x xs)
  show ?case
  proof (cases n)
    case 0
    then show ?thesis by simp
  next
    case (Suc k)
    from Cons.prems have "list_all (\<lambda>v. \<not> overlaps x v) (take k xs)"
      by (auto simp: list_all_iff dest: in_set_takeD)
    with Cons Suc show ?thesis by simp
  qed
qed

lemma no_overlap_drop: "no_overlap xs \<Longrightarrow> no_overlap (drop n xs)"
proof (induction xs arbitrary: n)
  case Nil
  then show ?case by simp
next
  case (Cons x xs)
  then show ?case by (cases n) simp_all
qed

lemma where_single:
  "where_clause (SingleQuery (sensor_id u) (start_time u) (end_time u)) s p \<longleftrightarrow>
     or_condition u s \<and> p_status p = ''DONE''"
  by (simp only: where_clause.simps or_condition_def conj_assoc)

lemma group_bounds:
  assumes "u \<in> set g" "start_time u \<le> x" "x < end_time u"
  shows "Min (set (map start_time g)) \<le> x \<and> x < Max (set (map end_time g))"
proof -
  have "Min (set (map start_time g)) \<le> start_time u" using assms(1) by (intro Min_le) auto
  moreover have "end_time u \<le> Max (set (map end_time g))" using assms(1) by (intro Max_ge) auto
  ultimately show ?thesis using assms(2,3) by (meson order.trans less_le_trans)
qed

lemma where_batch:
  "where_clause (BatchQuery g (Min (set (map start_time g))) (Max (set (map end_time g)))) s p \<longleftrightarrow>
     list_ex (\<lambda>u. or_condition u s) g \<and> p_status p = ''DONE''"
  unfolding where_clause.simps list_ex_iff or_condition_def
  using group_bounds[of _ g "measurement_time s"] by blast

lemma group_rows:
  assumes "no_overlap g"
  shows "length (filter (\<lambda>(s, p). join_on s p \<and> list_ex (\<lambda>u. or_condition u s) g \<and> D p) xs) =
         (\<Sum>u\<leftarrow>g. length (filter (\<lambda>(s, p). join_on s p \<and> or_condition u s \<and> D p) xs))"
  using assms
proof (induction g)
  case Nil
  then show ?case by simp
next
  case (Cons u g)
  let ?P = "\<lambda>(s, p). join_on s p \<and> or_condition u s \<and> D p"
  let ?Q = "\<lambda>(s, p). join_on s p \<and> list_ex (\<lambda>u. or_condition u s) g \<and> D p"
  from Cons.prems have sep: "\<forall>v\<in>set g. \<not> overlaps u v" and rest: "no_overlap g"
    by (simp_all add: list_all_iff)
  have excl: "\<not> (?P x \<and> ?Q x)" for x
  proof (cases x)
    case (Pair s p)
    show ?thesis
    proof
      assume "?P x \<and> ?Q x"
      with Pair have "or_condition u s" and "list_ex (\<lambda>u. or_condition u s) g" by simp_all
      then obtain v where "v \<in> set g" "or_condition v s" by (auto simp: list_ex_iff)
      with sep or_conditions_exclusive[of u v s] \<open>or_condition u s\<close> show False by blast
    qed
  qed
  have "(\<lambda>(s, p). join_on s p \<and> list_ex (\<lambda>u. or_condition u s) (u # g) \<and> D p) =
        (\<lambda>x. ?P x \<or> ?Q x)"
    by (rule ext) auto
  then have "length (filter (\<lambda>(s, p). join_on s p \<and> list_ex (\<lambda>u. or_condition u s) (u # g) \<and> D p) xs) =
        length (filter ?P xs) + length (filter ?Q xs)"
    using filter_disj_length[of xs ?P ?Q] excl by simp
  with Cons.IH[OF rest] show ?case by simp
qed

lemma unit_rows_filter:
  "unit_rows b u =
     length (filter (\<lambda>(s, p). join_on s p \<and> or_condition u s \<and> p_status p = ''DONE'')
       (List.product (sensor_data b) (active_periods b)))"
  unfolding unit_rows_def select_rows_def where_single ..

lemma batch_rows:
  assumes "no_overlap g"
  shows "length (select_rows b
           (BatchQuery g (Min (set (map start_time g))) (Max (set (map end_time g))))) =
         (\<Sum>u\<leftarrow>g. unit_rows b u)"
  unfolding select_rows_def where_batch unit_rows_filter
  by (rule group_rows[OF assms])

lemma run_query_rows:
  "success (fst (run_query b per req)) \<Longrightarrow>
   row_count (fst (run_query b per req)) = int (length (select_rows b req))"
  by (auto simp: run_query_def conn_fetch_def split: option.splits)

lemma sum_list_concat_map:
  "(\<Sum>x\<leftarrow>concat xss. f x) = sum_list (map (\<lambda>xs. \<Sum>x\<leftarrow>xs. (f x :: int)) xss)"
  by (induction xss) simp_all

lemma successful_rows_all:
  "list_all success rs \<Longrightarrow> successful_rows rs = sum_list (map row_count rs)"
  by (simp add: successful_rows_def list_all_iff filter_id_conv)

lemma per_unit_rows:
  assumes "list_all success (map (\<lambda>p. fst (query_single_period b p)) ps)"
  shows "successful_rows (map (\<lambda>p. fst (query_single_period b p)) ps) =
         (\<Sum>u\<leftarrow>ps. int (unit_rows b u))"
proof -
  have "row_count (fst (query_single_period b u)) = int (unit_rows b u)" if "u \<in> set ps" for u
  proof -
    from assms that have "success (fst (query_single_period b u))" by (simp add: list_all_iff)
    then show ?thesis
      unfolding query_single_period_def unit_rows_def by (rule run_query_rows)
  qed
  then have "map row_count (map (\<lambda>p. fst (query_single_period b p)) ps) =
             map (\<lambda>u. int (unit_rows b u)) ps"
    unfolding map_map comp_def by (intro map_cong refl)
  with successful_rows_all[OF assms] show ?thesis by (simp only:)
qed

lemma batched_rows:
  assumes ok: "list_all success (map (\<lambda>g. fst (run_query b None
             (BatchQuery g (Min (set (map start_time g))) (Max (set (map end_time g)))))) gs)"
    and sep: "\<And>g. g \<in> set gs \<Longrightarrow> no_overlap g"
  shows "successful_rows (map (\<lambda>g. fst (run_query b None
             (BatchQuery g (Min (set (map start_time g))) (Max (set (map end_time g)))))) gs) =
         (\<Sum>u\<leftarrow>concat gs. int (unit_rows b u))"
proof -
  let ?out = "\<lambda>g. fst (run_query b None
             (BatchQuery g (Min (set (map start_time g))) (Max (set (map end_time g)))))"
  have "row_count (?out g) = (\<Sum>u\<leftarrow>g. int (unit_rows b u))" if "g \<in> set gs" for g
  proof -
    from ok that have "success (?out g)" by (simp add: list_all_iff)
    then have "row_count (?out g) = int (length (select_rows b
           (BatchQuery g (Min (set (map start_time g))) (Max (set (map end_time g))))))"
      by (rule run_query_rows)
    also have "\<dots> = int (\<Sum>u\<leftarrow>g. unit_rows b u)" by (simp only: batch_rows[OF sep[OF that]])
    also have "\<dots> = (\<Sum>u\<leftarrow>g. int (unit_rows b u))" by (induction g) simp_all
    finally show ?thesis .
  qed
  then have "map row_count (map ?out gs) = map (\<lambda>g. \<Sum>u\<leftarrow>g. int (unit_rows b u)) gs"
    unfolding map_map comp_def by (intro map_cong refl)
  then have "sum_list (map row_count (map ?out gs)) = (\<Sum>u\<leftarrow>concat gs. int (unit_rows b u))"
    by (simp only: sum_list_concat_map)
  with successful_rows_all[OF ok] show ?thesis by (simp only:)
qed

section \<open>Runs against the backend that cancels batch queries\<close>

lemma units_do_not_overlap: "no_overlap [unit_a, unit_b, unit_c]"
  by code_simp

lemma run_per_unit_flaky:
  "process_all_periods_parallel demo_proc flaky_db [0, 1, 2, 0, 1, 2, 2]
     [unit_a, unit_b, unit_c] False =
   Returns [\<lparr>period = Some unit_a, row_count = 2, duration_ms = 125, success = True, error = None\<rparr>,
            \<lparr>period = Some unit_b, row_count = 1, duration_ms = 125, success = True, error = None\<rparr>,
            \<lparr>period = Some unit_c, row_count = 1, duration_ms = 125, success = True, error = None\<rparr>]"
  by code_simp

lemma run_batched_flaky:
  "process_all_periods_parallel demo_proc flaky_db [1, 0, 0, 1] [unit_a, unit_b, unit_c] True =
   Returns [\<lparr>period = None, row_count = 0, duration_ms = 125, success = False,
              error = Some ''canceling statement due to statement timeout''\<rparr>,
            \<lparr>period = None, row_count = 0, duration_ms = 125, success = False,
              error = Some ''canceling statement due to statement timeout''\<rparr>]"
  by code_simp

section \<open>The two strategies compared\<close>

lemma handle_exceptions_Inr: "handle_exceptions (map Inr rs) = rs"
  by (induction rs) simp_all

text \<open>
  C5, as the code has it. When the batch size is positive, no two periods of the list
  overlap on the same sensor, and every result of both runs is successful, the rows
  counted by the per-unit run and by the batched run are the same.
\<close>

theorem cross_strategy_equivalence:
  assumes bs: "0 < batch_size proc"
    and sep: "no_overlap periods"
    and r1: "process_all_periods_parallel proc b sched periods False = Returns R1"
    and r2: "process_all_periods_parallel proc b sched' periods True = Returns R2"
    and ok1: "list_all success R1"
    and ok2: "list_all success R2"
  shows "successful_rows R1 = successful_rows R2"
proof -
  let ?B = "nat (batch_size proc)"
  let ?gs = "batch_groups ?B periods"
  let ?out = "\<lambda>g. fst (run_query b None
             (BatchQuery g (Min (set (map start_time g))) (Max (set (map end_time g)))))"
  have B: "0 < ?B" using bs by simp
  from r1 have "R1 = handle_exceptions (map (\<lambda>p. Inr (fst (query_single_period b p))) periods)"
    unfolding process_single by (rule dispatch_tasks_returns)
  then have R1: "R1 = map (\<lambda>p. fst (query_single_period b p)) periods"
    using handle_exceptions_Inr[of "map (\<lambda>p. fst (query_single_period b p)) periods"]
    by (simp add: comp_def)
  from r2 have "R2 = handle_exceptions (map (\<lambda>g. fst (query_batch_periods b g)) ?gs)"
    unfolding process_batched[OF bs] by (rule dispatch_tasks_returns)
  moreover have "map (\<lambda>g. fst (query_batch_periods b g)) ?gs = map Inr (map ?out ?gs)"
    unfolding map_map comp_def
  proof (rule map_cong[OF refl])
    fix g assume "g \<in> set ?gs"
    with batch_groups_nonempty[OF B] have "g \<noteq> []" by blast
    then show "fst (query_batch_periods b g) = Inr (?out g)"
      by (rule query_batch_periods_nonempty)
  qed
  ultimately have R2: "R2 = map ?out ?gs" by (simp only: handle_exceptions_Inr)
  have groups_sep: "no_overlap g" if "g \<in> set ?gs" for g
  proof -
    from that obtain k where "g = take ?B (drop (k * ?B) periods)"
      by (auto simp: batch_groups_def)
    with sep show ?thesis by (simp add: no_overlap_take no_overlap_drop)
  qed
  have "successful_rows R1 = (\<Sum>u\<leftarrow>periods. int (unit_rows b u))"
    using ok1 unfolding R1 by (rule per_unit_rows)
  moreover have "successful_rows R2 = (\<Sum>u\<leftarrow>concat ?gs. int (unit_rows b u))"
    unfolding R2 by (rule batched_rows) (use ok2 R2 groups_sep in simp_all)
  ultimately show ?thesis by (simp only: concat_batch_groups[OF B])
qed

theorem cross_strategy_equivalence_witness:
  "0 < batch_size demo_proc \<and> no_overlap [unit_a, unit_b, unit_c] \<and>
   process_all_periods_parallel demo_proc bench_db [0, 1, 2, 0, 1, 2, 2]
     [unit_a, unit_b, unit_c] False =
   Returns [\<lparr>period = Some unit_a, row_count = 2, duration_ms = 125, success = True, error = None\<rparr>,
            \<lparr>period = Some unit_b, row_count = 1, duration_ms = 125, success = True, error = None\<rparr>,
            \<lparr>period = Some unit_c, row_count = 1, duration_ms = 125, success = True, error = None\<rparr>] \<and>
   process_all_periods_parallel demo_proc bench_db [1, 0, 0, 1] [unit_a, unit_b, unit_c] True =
   Returns [\<lparr>period = None, row_count = 3, duration_ms = 125, success = True, error = None\<rparr>,
            \<lparr>period = None, row_count = 1, duration_ms = 125, success = True, error = None\<rparr>] \<and>
   successful_rows
     [\<lparr>period = Some unit_a, row_count = 2, duration_ms = 125, success = True, error = None\<rparr>,
      \<lparr>period = Some unit_b, row_count = 1, duration_ms = 125, success = True, error = None\<rparr>,
      \<lparr>period = Some unit_c, row_count = 1, duration_ms = 125, success = True, error = None\<rparr>] =
   successful_rows
     [\<lparr>period = None, row_count = 3, duration_ms = 125, success = True, error = None\<rparr>,
      \<lparr>period = None, row_count = 1, duration_ms = 125, success = True, error = None\<rparr>]"
  using cross_strategy_equivalence[OF _ units_do_not_overlap run_per_unit run_batched]
    units_do_not_overlap run_per_unit run_batched
  by (simp add: demo_proc_def)

text \<open>
  The claim as written does not hold when queries fail: against a backend that cancels
  the batch query but answers the per-unit queries, the per-unit run counts four rows
  and the batched run none, although the periods do not overlap.
\<close>

theorem cross_strategy_counterexample:
  "no_overlap [unit_a, unit_b, unit_c] \<and>
   process_all_periods_parallel demo_proc flaky_db [0, 1, 2, 0, 1, 2, 2]
     [unit_a, unit_b, unit_c] False =
   Returns [\<lparr>period = Some unit_a, row_count = 2, duration_ms = 125, success = True, error = None\<rparr>,
            \<lparr>period = Some unit_b, row_count = 1, duration_ms = 125, success = True, error = None\<rparr>,
            \<lparr>period = Some unit_c, row_count = 1, duration_ms = 125, success = True, error = None\<rparr>] \<and>
   process_all_periods_parallel demo_proc flaky_db [1, 0, 0, 1] [unit_a, unit_b, unit_c] True =
   Returns [\<lparr>period = None, row_count = 0, duration_ms = 125, success = False,
              error = Some ''canceling statement due to statement timeout''\<rparr>,
            \<lparr>period = None, row_count = 0, duration_ms = 125, success = False,
              error = Some ''canceling statement due to statement timeout''\<rparr>] \<and>
   successful_rows
     [\<lparr>period = Some unit_a, row_count = 2, duration_ms = 125, success = True, error = None\<rparr>,
      \<lparr>period = Some unit_b, row_count = 1, duration_ms = 125, success = True, error = None\<rparr>,
      \<lparr>period = Some unit_c, row_count = 1, duration_ms = 125, success = True, error = None\<rparr>] = 4 \<and>
   successful_rows
     [\<lparr>period = None, row_count = 0, duration_ms = 125, success = False,
        error = Some ''canceling statement due to statement timeout''\<rparr>,
      \<lparr>period = None, row_count = 0, duration_ms = 125, success = False,
        error = Some ''canceling statement due to statement timeout''\<rparr>] = 0"
  using units_do_not_overlap run_per_unit_flaky run_batched_flaky
  by (simp add: successful_rows_def)

section \<open>The text of the batch query\<close>

lemma or_condition_text_unit_a:
  "or_condition_text unit_a =
     ''(s.sensor_id = 42 AND s.measurement_time >= '' @ [CHR 0x27] @ ''2024-01-01T00:00:00'' @
     [CHR 0x27] @ '' AND s.measurement_time < '' @ [CHR 0x27] @ ''2024-01-02T00:00:00'' @
     [CHR 0x27] @ '')''"
  by code_simp

lemma or_condition_text_other_sensor:
  "or_condition_text (unit_a\<lparr>sensor_id := 43\<rparr>) =
     ''(s.sensor_id = 43 AND s.measurement_time >= '' @ [CHR 0x27] @ ''2024-01-01T00:00:00'' @
     [CHR 0x27] @ '' AND s.measurement_time < '' @ [CHR 0x27] @ ''2024-01-02T00:00:00'' @
     [CHR 0x27] @ '')''"
  by code_simp

lemma batch_effects:
  "query_batch_periods b [u] =
     (Inr (fst (run_query b None (BatchQuery [u] (start_time u) (end_time u)))),
      snd (run_query b None (BatchQuery [u] (start_time u) (end_time u))))"
  by (simp add: query_batch_periods_def py_min_def py_max_def split: prod.split)

text \<open>
  C4 fails on the code. Two groups of one period each, which differ in the sensor only,
  are sent to the backend with the same two bound parameters and with different query
  texts: the sensor and the interval of each period are written into the text.
\<close>

theorem batch_query_text_interpolates_values:
  "snd (query_batch_periods bench_db [unit_a]) =
     [Acquired, Fetched (BatchQuery [unit_a] (2024, 1, 1, 0, 0, 0, 0) (2024, 1, 2, 0, 0, 0, 0))] \<and>
   snd (query_batch_periods bench_db [unit_a\<lparr>sensor_id := 43\<rparr>]) =
     [Acquired, Fetched (BatchQuery [unit_a\<lparr>sensor_id := 43\<rparr>]
        (2024, 1, 1, 0, 0, 0, 0) (2024, 1, 2, 0, 0, 0, 0))] \<and>
   request_params (BatchQuery [unit_a] (2024, 1, 1, 0, 0, 0, 0) (2024, 1, 2, 0, 0, 0, 0)) =
   request_params (BatchQuery [unit_a\<lparr>sensor_id := 43\<rparr>]
        (2024, 1, 1, 0, 0, 0, 0) (2024, 1, 2, 0, 0, 0, 0)) \<and>
   request_text (BatchQuery [unit_a] (2024, 1, 1, 0, 0, 0, 0) (2024, 1, 2, 0, 0, 0, 0)) \<noteq>
   request_text (BatchQuery [unit_a\<lparr>sensor_id := 43\<rparr>]
        (2024, 1, 1, 0, 0, 0, 0) (2024, 1, 2, 0, 0, 0, 0))"
proof -
  have "or_condition_text unit_a \<noteq> or_condition_text (unit_a\<lparr>sensor_id := 43\<rparr>)"
    unfolding or_condition_text_unit_a or_condition_text_other_sensor by simp
  then have "batch_query_text [unit_a] \<noteq> batch_query_text [unit_a\<lparr>sensor_id := 43\<rparr>]"
    by (simp add: batch_query_text_def)
  moreover have "snd (query_batch_periods bench_db [unit_a]) =
     [Acquired, Fetched (BatchQuery [unit_a] (2024, 1, 1, 0, 0, 0, 0) (2024, 1, 2, 0, 0, 0, 0))]"
    by (simp add: batch_effects run_query_def conn_fetch_def bench_db_def unit_a_def)
  moreover have "snd (query_batch_periods bench_db [unit_a\<lparr>sensor_id := 43\<rparr>]) =
     [Acquired, Fetched (BatchQuery [unit_a\<lparr>sensor_id := 43\<rparr>]
        (2024, 1, 1, 0, 0, 0, 0) (2024, 1, 2, 0, 0, 0, 0))]"
    by (simp add: batch_effects run_query_def conn_fetch_def bench_db_def unit_a_def)
  ultimately show ?thesis by simp
qed

section \<open>Processors configured outside the positive range\<close>

lemma zero_batch_size_raises:
  "batch_size proc = 0 \<Longrightarrow>
   process_all_periods_parallel proc b sched ps True =
     Raises (PyException ''ValueError'' ''range() arg 3 must not be zero'')"
  by (simp add: process_all_periods_parallel_def make_tasks_def make_batches_def py_range_def)

lemma negative_batch_size_no_batches:
  assumes "batch_size proc < 0"
  shows "make_batches proc ps = Inr []"
proof -
  let ?d = "- batch_size proc"
  have d: "0 < ?d" using assms by simp
  have "(0 - int (length ps) - batch_size proc - 1) div ?d \<le> 0"
  proof (cases "0 \<le> 0 - int (length ps) - batch_size proc - 1")
    case True
    moreover have "0 - int (length ps) - batch_size proc - 1 < ?d" by simp
    ultimately have "(0 - int (length ps) - batch_size proc - 1) div ?d = 0"
      by (rule div_pos_pos_trivial)
    then show ?thesis by simp
  next
    case False
    then have "0 - int (length ps) - batch_size proc - 1 < 0" by simp
    from div_neg_pos_less0[OF this d] show ?thesis by simp
  qed
  then show ?thesis using assms by (simp add: make_batches_def py_range_def)
qed

lemma no_connections_blocks:
  "max_connections proc = 0 \<Longrightarrow> ps \<noteq> [] \<Longrightarrow>
   process_all_periods_parallel proc b sched ps False = Awaiting"
  by (simp add: process_single dispatch_tasks_def bounded_gather_blocked)

lemma negative_connections_raise:
  "max_connections proc < 0 \<Longrightarrow>
   process_all_periods_parallel proc b sched ps False =
     Raises (PyException ''ValueError'' ''Semaphore initial value must be >= 0'')"
  by (simp add: process_single dispatch_tasks_def bounded_gather_def)

end
